theory Spec2Isabelle
  imports Main
begin

section \<open>JavaScript values used by the router\<close>

text \<open>
  The router of \<^verbatim>\<open>src/src/Router.ts\<close> works on strings, on arrays of strings
  produced by \<^verbatim>\<open>String.prototype.split\<close>, and on the value \<^verbatim>\<open>undefined\<close>.
  A string is a \<^typ>\<open>string\<close>; \<^verbatim>\<open>HttpMethod\<close> (declared by the host library
  as a union of string literals) is a string as well.
\<close>

datatype jsval = Undefined | Str string | Arr "string list"

text \<open>
  \<^verbatim>\<open>s.split('/')\<close>: one segment more than there are slashes. The result is never
  empty (\<open>split_slash_nonempty\<close> below), so the last branch is never taken.
\<close>

fun split_slash :: "string \<Rightarrow> string list" where
  "split_slash [] = [[]]"
| "split_slash (c # cs) =
     (if c = CHR ''/'' then [] # split_slash cs
      else (case split_slash cs of
              seg # segs \<Rightarrow> (c # seg) # segs
            | [] \<Rightarrow> [[c]]))"

text \<open>\<^verbatim>\<open>a.shift()\<close>: drops the first element; on an empty array it does nothing.\<close>

definition shift :: "'a list \<Rightarrow> 'a list" where
  "shift xs = (case xs of [] \<Rightarrow> [] | _ # rest \<Rightarrow> rest)"

text \<open>\<^verbatim>\<open>part.startsWith('(')\<close>, for a one-character argument.\<close>

fun startsWith :: "string \<Rightarrow> char \<Rightarrow> bool" where
  "startsWith [] c = False"
| "startsWith (x # xs) c = (x = c)"

text \<open>\<^verbatim>\<open>part.replace(/[()]/g, '')\<close>: every parenthesis is removed, wherever it stands.\<close>

definition replace_parens :: "string \<Rightarrow> string" where
  "replace_parens part = filter (\<lambda>c. c \<noteq> CHR ''('' \<and> c \<noteq> CHR '')'') part"

text \<open>\<^verbatim>\<open>a[index]\<close> on an array: \<^verbatim>\<open>undefined\<close> out of range.\<close>

definition array_get :: "string list \<Rightarrow> nat \<Rightarrow> jsval" where
  "array_get xs i = (if i < length xs then Str (xs ! i) else Undefined)"

section \<open>The data model\<close>

text \<open>
  \<^verbatim>\<open>context.req\<close> is optional in the host's \<^verbatim>\<open>Context\<close> type, its
  \<^verbatim>\<open>method\<close> is \<^verbatim>\<open>HttpMethod | null\<close>, and \<^verbatim>\<open>context.bindingData.path\<close>
  is a string or \<^verbatim>\<open>undefined\<close>. \<open>None\<close> stands for the absent value in each.
\<close>

record HttpRequest =
  req_method :: "string option"

record Context =
  req :: "HttpRequest option"
  bindingData_path :: "string option"

text \<open>
  \<^verbatim>\<open>HttpResponse<T>\<close>. The optional \<^verbatim>\<open>body\<close> is undefined, \<^verbatim>\<open>null\<close>
  or a value; the status is a number, of which only integers are needed here.
\<close>

datatype 'b bodyval = BodyUndefined | BodyNull | BodyValue 'b

record 'b HttpResponse =
  headers :: "(string \<times> string) list option"
  status :: int
  body :: "'b bodyval"

definition NOT_FOUND :: int where
  "NOT_FOUND = 404"

text \<open>
  The parameters object starts as \<^verbatim>\<open>{}\<close>; it is modelled by its own properties.
  Handlers are opaque callables: a handler is an identifier of type \<open>'h\<close>, and what it
  does when called is given by a function (\<open>run\<close> below) from the handler, the context
  and the parameters to the outcome of the promise it returns. A promise outcome is a
  response or a rejection; \<open>TypeError\<close> is the error the JavaScript runtime raises
  for a property read on \<^verbatim>\<open>undefined\<close>, and a rejection carries either such a thrown
  error or whatever the handler's own promise was rejected with.
\<close>

type_synonym ParamsMap = "string \<rightharpoonup> jsval"

datatype js_error = TypeError

datatype 'e reason = Thrown js_error | HandlerError 'e

datatype ('e, 'b) promise = Resolved "'b HttpResponse" | Rejected "'e reason"

text \<open>\<^verbatim>\<open>Route\<close>: the predicate closure and the handler.\<close>

record 'h Route =
  test :: "string option \<Rightarrow> string option \<Rightarrow> bool"
  handler :: 'h

text \<open>
  \<^verbatim>\<open>Map<string, Route>\<close>: an association list in insertion order. \<^verbatim>\<open>Map.set\<close>
  on a key that is present replaces the value and keeps the key's place; a new key goes
  to the end.
\<close>

record 'h Router =
  routeHandlers :: "(string \<times> 'h Route) list"

definition new_Router :: "'h Router" where
  "new_Router = \<lparr>routeHandlers = []\<rparr>"

fun map_set :: "(string \<times> 'v) list \<Rightarrow> string \<Rightarrow> 'v \<Rightarrow> (string \<times> 'v) list" where
  "map_set [] k v = [(k, v)]"
| "map_set ((k', v') # es) k v =
     (if k' = k then (k, v) # es else (k', v') # map_set es k v)"

section \<open>addRoute\<close>

text \<open>
  The loop of the inner function \<^verbatim>\<open>test\<close>: \<open>None\<close> is the \<^verbatim>\<open>return false\<close>
  inside the loop, \<open>Some index\<close> the index the loop ends with.
\<close>

fun test_loop :: "string list \<Rightarrow> string list \<Rightarrow> nat \<Rightarrow> nat option" where
  "test_loop [] urlParts index = Some index"
| "test_loop (part # parts) urlParts index =
     (if \<not> startsWith part CHR ''('' \<and> array_get urlParts index \<noteq> Str part then None
      else test_loop parts urlParts (Suc index))"

text \<open>
  The closure \<^verbatim>\<open>test\<close> with its captured variables \<^verbatim>\<open>method\<close> and
  \<^verbatim>\<open>pathParts\<close> as arguments. The default parameter \<^verbatim>\<open>url = ''\<close> replaces an
  undefined url.
\<close>

definition addRoute_test ::
  "string \<Rightarrow> string list \<Rightarrow> string option \<Rightarrow> string option \<Rightarrow> bool" where
  "addRoute_test m pathParts requestMethod url =
     (if requestMethod \<noteq> Some m then False
      else
        (let urlParts = split_slash (case url of None \<Rightarrow> [] | Some u \<Rightarrow> u) in
         case test_loop pathParts urlParts 0 of
           None \<Rightarrow> False
         | Some index \<Rightarrow> if index \<noteq> length urlParts then False else True))"

definition addRoute :: "string \<Rightarrow> string \<Rightarrow> 'h \<Rightarrow> 'h Router \<Rightarrow> 'h Router" where
  "addRoute m path h r =
     (let pathParts = shift (split_slash path) in
      r\<lparr>routeHandlers :=
          map_set (routeHandlers r) (m @ path)
            \<lparr>test = addRoute_test m pathParts, handler = h\<rparr>\<rparr>)"

section \<open>route\<close>

text \<open>
  \<^verbatim>\<open>context.bindingData.path && context.bindingData.path.split('/')\<close>: the
  operator \<^verbatim>\<open>&&\<close> yields its left operand when that is falsy, so an undefined path
  gives \<^verbatim>\<open>undefined\<close> and the empty string gives the empty string.
\<close>

definition urlParts_of :: "string option \<Rightarrow> jsval" where
  "urlParts_of p =
     (case p of
        None \<Rightarrow> Undefined
      | Some u \<Rightarrow> if u = [] then Str [] else Arr (split_slash u))"

text \<open>
  \<^verbatim>\<open>urlParts[index]\<close>: a property read on \<^verbatim>\<open>undefined\<close> throws; on a string it is
  the character at the index, on an array the element, and \<^verbatim>\<open>undefined\<close> out of
  range.
\<close>

definition get_index :: "jsval \<Rightarrow> nat \<Rightarrow> js_error + jsval" where
  "get_index u i =
     (case u of
        Undefined \<Rightarrow> Inl TypeError
      | Str s \<Rightarrow> Inr (if i < length s then Str [s ! i] else Undefined)
      | Arr xs \<Rightarrow> Inr (array_get xs i))"

text \<open>
  \<^verbatim>\<open>params[param] = v\<close> on a plain object: an own property is written, except for
  the name \<^verbatim>\<open>__proto__\<close>, which is an accessor inherited from
  \<^verbatim>\<open>Object.prototype\<close> whose setter ignores a string or \<^verbatim>\<open>undefined\<close>.
\<close>

definition proto_name :: string where
  "proto_name = ''__proto__''"

definition set_prop :: "ParamsMap \<Rightarrow> string \<Rightarrow> jsval \<Rightarrow> ParamsMap" where
  "set_prop params name v = (if name = proto_name then params else params(name \<mapsto> v))"

fun params_loop ::
  "string list \<Rightarrow> jsval \<Rightarrow> nat \<Rightarrow> ParamsMap \<Rightarrow> js_error + ParamsMap" where
  "params_loop [] urlParts index params = Inr params"
| "params_loop (part # parts) urlParts index params =
     (if startsWith part CHR ''('' then
        (case get_index urlParts index of
           Inl e \<Rightarrow> Inl e
         | Inr v \<Rightarrow>
             params_loop parts urlParts (Suc index) (set_prop params (replace_parens part) v))
      else params_loop parts urlParts (Suc index) params)"

text \<open>
  The body of the \<^verbatim>\<open>if\<close> in \<^verbatim>\<open>route\<close>, for the entry \<open>(key, rt)\<close>: the calls
  made to handlers and the outcome. An exception thrown in an \<^verbatim>\<open>async\<close> function
  rejects its promise; returning the handler's promise adopts its outcome.
\<close>

type_synonym 'h call = "'h \<times> Context \<times> ParamsMap"

definition dispatch ::
  "('h \<Rightarrow> Context \<Rightarrow> ParamsMap \<Rightarrow> ('e, 'b) promise) \<Rightarrow> Context \<Rightarrow> string \<Rightarrow> 'h Route
     \<Rightarrow> 'h call list \<times> ('e, 'b) promise" where
  "dispatch run ctx key rt =
     (let pathParts = shift (split_slash key);
          urlParts = urlParts_of (bindingData_path ctx)
      in case params_loop pathParts urlParts 0 Map.empty of
           Inl e \<Rightarrow> ([], Rejected (Thrown e))
         | Inr params \<Rightarrow> ([(handler rt, ctx, params)], run (handler rt) ctx params))"

text \<open>
  The loop over the map's entries. Reading \<^verbatim>\<open>context.req.method\<close> throws when
  \<^verbatim>\<open>context.req\<close> is undefined; the fall-through is the not-found response.
\<close>

fun route_loop ::
  "('h \<Rightarrow> Context \<Rightarrow> ParamsMap \<Rightarrow> ('e, 'b) promise) \<Rightarrow> Context \<Rightarrow> (string \<times> 'h Route) list
     \<Rightarrow> 'h call list \<times> ('e, 'b) promise" where
  "route_loop run ctx [] =
     ([], Resolved \<lparr>headers = None, status = NOT_FOUND, body = BodyNull\<rparr>)"
| "route_loop run ctx ((key, rt) # rest) =
     (case req ctx of
        None \<Rightarrow> ([], Rejected (Thrown TypeError))
      | Some rq \<Rightarrow>
          if test rt (req_method rq) (bindingData_path ctx) then dispatch run ctx key rt
          else route_loop run ctx rest)"

text \<open>
  \<^verbatim>\<open>route\<close>, with the router passed in and returned: the router after the call, the
  handler calls made, and the outcome of the returned promise.
\<close>

record ('h, 'e, 'b) Routed =
  router :: "'h Router"
  calls :: "'h call list"
  outcome :: "('e, 'b) promise"

definition route ::
  "('h \<Rightarrow> Context \<Rightarrow> ParamsMap \<Rightarrow> ('e, 'b) promise) \<Rightarrow> 'h Router \<Rightarrow> Context
     \<Rightarrow> ('h, 'e, 'b) Routed" where
  "route run r ctx =
     (case route_loop run ctx (routeHandlers r) of
        (cs, out) \<Rightarrow> \<lparr>router = r, calls = cs, outcome = out\<rparr>)"

text \<open>
  A handler is user code that runs inside \<^verbatim>\<open>route\<close> (line 69) and may hold the router,
  whose \<^verbatim>\<open>addRoute\<close> is public. The functions below are \<^verbatim>\<open>route\<close> once more with
  that effect written out: a handler takes the router as it stands and returns, with the
  outcome of its promise, the router as it leaves it. The router is threaded through the
  loop and through the body of the \<^verbatim>\<open>if\<close>; the function returns right after the
  handler call, so the loop never continues on a changed map. \<open>route\<close> above is the
  instance for handlers that leave the router alone (\<open>route_st_leaves_router\<close> below).
\<close>

definition dispatch_st ::
  "('h \<Rightarrow> Context \<Rightarrow> ParamsMap \<Rightarrow> 'h Router \<Rightarrow> ('e, 'b) promise \<times> 'h Router) \<Rightarrow> Context \<Rightarrow> string
     \<Rightarrow> 'h Route \<Rightarrow> 'h Router \<Rightarrow> 'h call list \<times> ('e, 'b) promise \<times> 'h Router" where
  "dispatch_st run ctx key rt r =
     (let pathParts = shift (split_slash key);
          urlParts = urlParts_of (bindingData_path ctx)
      in case params_loop pathParts urlParts 0 Map.empty of
           Inl e \<Rightarrow> ([], Rejected (Thrown e), r)
         | Inr params \<Rightarrow>
             (case run (handler rt) ctx params r of
                (out, r') \<Rightarrow> ([(handler rt, ctx, params)], out, r')))"

fun route_loop_st ::
  "('h \<Rightarrow> Context \<Rightarrow> ParamsMap \<Rightarrow> 'h Router \<Rightarrow> ('e, 'b) promise \<times> 'h Router) \<Rightarrow> Context
     \<Rightarrow> 'h Router \<Rightarrow> (string \<times> 'h Route) list
     \<Rightarrow> 'h call list \<times> ('e, 'b) promise \<times> 'h Router" where
  "route_loop_st run ctx r [] =
     ([], Resolved \<lparr>headers = None, status = NOT_FOUND, body = BodyNull\<rparr>, r)"
| "route_loop_st run ctx r ((key, rt) # rest) =
     (case req ctx of
        None \<Rightarrow> ([], Rejected (Thrown TypeError), r)
      | Some rq \<Rightarrow>
          if test rt (req_method rq) (bindingData_path ctx) then dispatch_st run ctx key rt r
          else route_loop_st run ctx r rest)"

definition route_st ::
  "('h \<Rightarrow> Context \<Rightarrow> ParamsMap \<Rightarrow> 'h Router \<Rightarrow> ('e, 'b) promise \<times> 'h Router) \<Rightarrow> 'h Router
     \<Rightarrow> Context \<Rightarrow> ('h, 'e, 'b) Routed" where
  "route_st run r ctx =
     (case route_loop_st run ctx r (routeHandlers r) of
        (cs, out, r') \<Rightarrow> \<lparr>router = r', calls = cs, outcome = out\<rparr>)"

text \<open>A handler behaviour that leaves the router alone.\<close>

definition leaves_router ::
  "('h \<Rightarrow> Context \<Rightarrow> ParamsMap \<Rightarrow> ('e, 'b) promise)
     \<Rightarrow> 'h \<Rightarrow> Context \<Rightarrow> ParamsMap \<Rightarrow> 'h Router \<Rightarrow> ('e, 'b) promise \<times> 'h Router" where
  "leaves_router run h ctx params r = (run h ctx params, r)"

text \<open>
  A sequence of \<^verbatim>\<open>route\<close> calls on one router, each with the handlers' behaviour at
  the time of the call; every call works on the router the call before it left. The
  result is the router at the end and the result of every call.
\<close>

fun route_seq ::
  "'h Router
     \<Rightarrow> (('h \<Rightarrow> Context \<Rightarrow> ParamsMap \<Rightarrow> 'h Router \<Rightarrow> ('e, 'b) promise \<times> 'h Router) \<times> Context) list
     \<Rightarrow> 'h Router \<times> ('h, 'e, 'b) Routed list" where
  "route_seq r [] = (r, [])"
| "route_seq r ((run, ctx) # rest) =
     (let res = route_st run r ctx;
          (r', results) = route_seq (router res) rest
      in (r', res # results))"

section \<open>Example handlers and requests\<close>

text \<open>
  A context as the tests build it (\<^verbatim>\<open>getMockContext\<close>, then \<^verbatim>\<open>req.method\<close> and
  \<^verbatim>\<open>bindingData.path\<close> set), a handler behaviour that answers 200 with the handler's
  number as body, and one whose promise rejects.
\<close>

definition getMockContext :: "string \<Rightarrow> string option \<Rightarrow> Context" where
  "getMockContext m p = \<lparr>req = Some \<lparr>req_method = Some m\<rparr>, bindingData_path = p\<rparr>"

definition ok_run :: "nat \<Rightarrow> Context \<Rightarrow> ParamsMap \<Rightarrow> (string, nat) promise" where
  "ok_run h ctx params = Resolved \<lparr>headers = None, status = 200, body = BodyValue h\<rparr>"

definition failing_run :: "nat \<Rightarrow> Context \<Rightarrow> ParamsMap \<Rightarrow> (string, nat) promise" where
  "failing_run h ctx params = Rejected (HandlerError ''boom'')"

text \<open>
  A handler that registers one more route on the router while it answers, as
  \<^verbatim>\<open>async () => { router.addRoute('GET', '/late', other); return { status: 200 } }\<close>
  would.
\<close>

definition registering_run ::
  "nat \<Rightarrow> Context \<Rightarrow> ParamsMap \<Rightarrow> nat Router \<Rightarrow> (string, nat) promise \<times> nat Router" where
  "registering_run h ctx params r =
     (Resolved \<lparr>headers = None, status = 200, body = BodyValue h\<rparr>,
      addRoute ''GET'' ''/late'' 99 r)"

text \<open>What a call result shows: the handlers called, and the value each call's
  parameters give a name.\<close>

definition handlers_called :: "('h, 'e, 'b) Routed \<Rightarrow> 'h list" where
  "handlers_called res = map fst (calls res)"

definition params_passed :: "('h, 'e, 'b) Routed \<Rightarrow> string \<Rightarrow> jsval option list" where
  "params_passed res name = map (\<lambda>c. snd (snd c) name) (calls res)"

text \<open>The keys of a router in iteration order, each with the handler stored under it.\<close>

definition registrations :: "'h Router \<Rightarrow> (string \<times> 'h) list" where
  "registrations r = map (\<lambda>e. (fst e, handler (snd e))) (routeHandlers r)"

text \<open>
  The classification of a pattern segment in the words of the specification (section 6):
  a parameter segment is one wrapped in the delimiter pair, beginning with \<^verbatim>\<open>(\<close> and
  ending with \<^verbatim>\<open>)\<close>. The code does not use it; it is here to be compared with
  \<open>startsWith\<close>.
\<close>

definition endsWith :: "string \<Rightarrow> char \<Rightarrow> bool" where
  "endsWith s c = (s \<noteq> [] \<and> last s = c)"

definition spec_wrapped_in_parens :: "string \<Rightarrow> bool" where
  "spec_wrapped_in_parens seg = (startsWith seg CHR ''('' \<and> endsWith seg CHR '')'')"

text \<open>
  The condition of claim C3 in its own words, with a literal segment read as the
  specification reads it: a segment that is not wrapped in the delimiter pair. It is here
  to be compared with \<open>addRoute_test\<close>.
\<close>

definition spec_test_condition ::
  "string \<Rightarrow> string list \<Rightarrow> string option \<Rightarrow> string list \<Rightarrow> bool" where
  "spec_test_condition m pathParts requestMethod urlParts =
     (requestMethod = Some m \<and> length pathParts = length urlParts \<and>
      (\<forall>i<length pathParts.
         \<not> spec_wrapped_in_parens (pathParts ! i) \<longrightarrow> urlParts ! i = pathParts ! i))"

section \<open>Facts about splitting and matching\<close>

lemma split_slash_nonempty: "split_slash s \<noteq> []"
  by (induction s) (auto split: list.splits)

lemma shift_tl: "shift xs = tl xs"
  by (cases xs) (simp_all add: shift_def)

lemma tl_split_slash_method:
  "CHR ''/'' \<notin> set m \<Longrightarrow> tl (split_slash (m @ path)) = tl (split_slash path)"
  by (induction m) (auto split: list.splits simp: split_slash_nonempty)

lemma shift_split_slash_key:
  "CHR ''/'' \<notin> set m \<Longrightarrow> shift (split_slash (m @ path)) = shift (split_slash path)"
  by (simp add: shift_tl tl_split_slash_method)

lemma test_loop_char:
  "test_loop ps us i =
     (if \<forall>k<length ps. startsWith (ps ! k) CHR ''('' \<or> array_get us (i + k) = Str (ps ! k)
      then Some (i + length ps) else None)"
proof (induction ps arbitrary: i)
  case Nil
  show ?case by simp
next
  case (Cons p ps)
  have all_Suc: "\<And>P. (\<forall>k<Suc (length ps). P k) = (P 0 \<and> (\<forall>k<length ps. P (Suc k)))"
    by (auto simp: less_Suc_eq_0_disj)
  show ?case
    by (simp add: Cons.IH all_Suc)
qed

section \<open>Facts about the map, the route loop and the parameters loop\<close>

lemma map_of_map_set: "map_of (map_set es k v) = (map_of es)(k \<mapsto> v)"
  by (induction es) (auto simp: fun_eq_iff)

lemma map_set_twice: "map_set (map_set es k v1) k v2 = map_set es k v2"
  by (induction es) auto

lemma keys_map_set: "fst ` set (map_set es k v) = insert k (fst ` set es)"
proof (induction es)
  case Nil
  show ?case by simp
next
  case (Cons e es)
  obtain k' v' where e: "e = (k', v')" by (cases e)
  show ?case
  proof (cases "k' = k")
    case True
    then show ?thesis by (simp add: e)
  next
    case False
    then show ?thesis using Cons.IH by (simp add: e insert_commute)
  qed
qed

lemma distinct_map_set:
  "distinct (map fst es) \<Longrightarrow> distinct (map fst (map_set es k v))"
proof (induction es)
  case Nil
  show ?case by simp
next
  case (Cons e es)
  obtain k' v' where e: "e = (k', v')" by (cases e)
  from Cons.prems have notin: "k' \<notin> fst ` set es" and dist: "distinct (map fst es)"
    by (simp_all add: e)
  show ?case
  proof (cases "k' = k")
    case True
    with Cons.prems show ?thesis by (simp add: e)
  next
    case False
    with notin have "k' \<notin> fst ` set (map_set es k v)"
      by (simp add: keys_map_set)
    with False Cons.IH [OF dist] show ?thesis
      by (simp add: e)
  qed
qed

lemma addRoute_test_iff:
  assumes "urlParts = split_slash (case url of None \<Rightarrow> [] | Some u \<Rightarrow> u)"
  shows "addRoute_test m pathParts requestMethod url \<longleftrightarrow>
     requestMethod = Some m \<and> length pathParts = length urlParts \<and>
     (\<forall>i<length pathParts.
        \<not> startsWith (pathParts ! i) CHR ''('' \<longrightarrow> urlParts ! i = pathParts ! i)"
proof (cases "length pathParts = length urlParts")
  case True
  then have "\<And>k. k < length pathParts \<Longrightarrow> array_get urlParts k = Str (urlParts ! k)"
    by (simp add: array_get_def)
  then have "(\<forall>k<length pathParts.
        startsWith (pathParts ! k) CHR ''('' \<or> array_get urlParts k = Str (pathParts ! k)) =
      (\<forall>i<length pathParts.
        \<not> startsWith (pathParts ! i) CHR ''('' \<longrightarrow> urlParts ! i = pathParts ! i)"
    by auto
  with True show ?thesis
    by (simp add: addRoute_test_def test_loop_char assms [symmetric])
next
  case False
  then show ?thesis
    by (auto simp: addRoute_test_def test_loop_char assms [symmetric])
qed

lemma route_loop_first_match:
  assumes "req ctx = Some rq"
    and "\<forall>e\<in>set pre. \<not> test (snd e) (req_method rq) (bindingData_path ctx)"
    and "test rt (req_method rq) (bindingData_path ctx)"
  shows "route_loop run ctx (pre @ (key, rt) # post) = dispatch run ctx key rt"
  using assms by (induction pre) auto

lemma route_loop_no_match:
  assumes "req ctx = Some rq"
    and "\<forall>e\<in>set es. \<not> test (snd e) (req_method rq) (bindingData_path ctx)"
  shows "route_loop run ctx es =
    ([], Resolved \<lparr>headers = None, status = NOT_FOUND, body = BodyNull\<rparr>)"
  using assms by (induction es) auto

lemma params_loop_Undefined:
  "params_loop ps Undefined i acc =
     (if \<exists>p\<in>set ps. startsWith p CHR ''('' then Inl TypeError else Inr acc)"
  by (induction ps arbitrary: i acc) (auto simp: get_index_def)

lemma params_loop_total:
  "u \<noteq> Undefined \<Longrightarrow> \<exists>params. params_loop ps u i acc = Inr params"
  by (induction ps arbitrary: i acc) (auto simp: get_index_def split: jsval.splits)

lemma params_loop_keeps:
  "params_loop ps u i acc = Inr params \<Longrightarrow>
   \<forall>p\<in>set ps. startsWith p CHR ''('' \<longrightarrow> replace_parens p \<noteq> x \<Longrightarrow>
   params x = acc x"
proof (induction ps arbitrary: i acc)
  case Nil
  then show ?case by simp
next
  case (Cons p ps)
  then show ?case
    by (auto simp: set_prop_def split: if_splits sum.splits)
qed

lemma params_loop_proto:
  "params_loop ps u i acc = Inr params \<Longrightarrow> params proto_name = acc proto_name"
proof (induction ps arbitrary: i acc)
  case Nil
  then show ?case by simp
next
  case (Cons p ps)
  then show ?case
    by (auto simp: set_prop_def split: if_splits sum.splits)
qed

lemma params_loop_binds:
  "params_loop ps (Arr us) i acc = Inr params \<Longrightarrow> k < length ps \<Longrightarrow>
   startsWith (ps ! k) CHR ''('' \<Longrightarrow> replace_parens (ps ! k) \<noteq> proto_name \<Longrightarrow>
   \<forall>j<length ps. k < j \<and> startsWith (ps ! j) CHR ''('' \<longrightarrow>
      replace_parens (ps ! j) \<noteq> replace_parens (ps ! k) \<Longrightarrow>
   params (replace_parens (ps ! k)) = Some (array_get us (i + k))"
proof (induction ps arbitrary: i acc k)
  case Nil
  then show ?case by simp
next
  case (Cons p ps)
  show ?case
  proof (cases k)
    case 0
    from Cons.prems(3) 0 have sp: "startsWith p CHR ''(''" by simp
    from Cons.prems(1) sp
    have rest: "params_loop ps (Arr us) (Suc i) (set_prop acc (replace_parens p) (array_get us i)) = Inr params"
      by (simp add: get_index_def)
    have "\<forall>q\<in>set ps. startsWith q CHR ''('' \<longrightarrow> replace_parens q \<noteq> replace_parens p"
    proof
      fix q assume "q \<in> set ps"
      then obtain j where j: "j < length ps" "ps ! j = q" by (auto simp: in_set_conv_nth)
      from Cons.prems(5) [rule_format, of "Suc j"] j 0
      show "startsWith q CHR ''('' \<longrightarrow> replace_parens q \<noteq> replace_parens p"
        by simp
    qed
    from params_loop_keeps [OF rest this]
    have "params (replace_parens p) = set_prop acc (replace_parens p) (array_get us i) (replace_parens p)" .
    with Cons.prems(4) 0 show ?thesis
      by (simp add: set_prop_def)
  next
    case (Suc k')
    from Cons.prems(1) obtain acc' where
      rest: "params_loop ps (Arr us) (Suc i) acc' = Inr params"
      by (auto simp: get_index_def split: if_splits)
    from Cons.prems(2) Suc have k': "k' < length ps" by simp
    from Cons.prems(3) Suc have sw: "startsWith (ps ! k') CHR ''(''" by simp
    from Cons.prems(4) Suc have np: "replace_parens (ps ! k') \<noteq> proto_name" by simp
    have later: "\<forall>j<length ps. k' < j \<and> startsWith (ps ! j) CHR ''('' \<longrightarrow>
        replace_parens (ps ! j) \<noteq> replace_parens (ps ! k')"
    proof (intro allI impI)
      fix j assume "j < length ps" "k' < j \<and> startsWith (ps ! j) CHR ''(''"
      with Cons.prems(5) [rule_format, of "Suc j"] Suc
      show "replace_parens (ps ! j) \<noteq> replace_parens (ps ! k')" by simp
    qed
    from Cons.IH [OF rest k' sw np later] Suc show ?thesis by simp
  qed
qed

lemma dom_set_prop:
  "dom (set_prop acc n v) = dom acc \<union> ({n} - {proto_name})"
  by (cases "n = proto_name") (simp_all add: set_prop_def)

lemma dom_params_loop:
  "params_loop ps u i acc = Inr params \<Longrightarrow>
   dom params = dom acc \<union> (replace_parens ` {p \<in> set ps. startsWith p CHR ''(''} - {proto_name})"
proof (induction ps arbitrary: i acc)
  case Nil
  then show ?case by simp
next
  case (Cons p ps)
  show ?case
  proof (cases "startsWith p CHR ''(''")
    case True
    with Cons.prems obtain v where
      rest: "params_loop ps u (Suc i) (set_prop acc (replace_parens p) v) = Inr params"
      by (auto split: sum.splits)
    have eq: "{q \<in> set (p # ps). startsWith q CHR ''(''} = insert p {q \<in> set ps. startsWith q CHR ''(''}"
      using True by auto
    show ?thesis
      unfolding Cons.IH [OF rest] dom_set_prop eq by blast
  next
    case False
    with Cons.prems have rest: "params_loop ps u (Suc i) acc = Inr params" by simp
    have eq: "{q \<in> set (p # ps). startsWith q CHR ''(''} = {q \<in> set ps. startsWith q CHR ''(''}"
      using False by auto
    show ?thesis
      unfolding Cons.IH [OF rest] eq by simp
  qed
qed

lemma route_loop_calls:
  "route_loop run ctx es = (cs, out) \<Longrightarrow>
     cs = [] \<or> (\<exists>h ps. cs = [(h, ctx, ps)] \<and> out = run h ctx ps)"
proof (induction es)
  case Nil
  then show ?case by simp
next
  case (Cons e es)
  obtain key rt where e: "e = (key, rt)" by (cases e)
  show ?case
  proof (cases "req ctx")
    case None
    with Cons.prems show ?thesis by (simp add: e)
  next
    case (Some rq)
    show ?thesis
    proof (cases "test rt (req_method rq) (bindingData_path ctx)")
      case True
      with Cons.prems Some have "dispatch run ctx key rt = (cs, out)" by (simp add: e)
      then show ?thesis
        by (auto simp: dispatch_def Let_def split: sum.splits)
    next
      case False
      with Cons.prems Some have "route_loop run ctx es = (cs, out)" by (simp add: e)
      then show ?thesis by (rule Cons.IH)
    qed
  qed
qed

lemma params_loop_no_params:
  "\<forall>p\<in>set ps. \<not> startsWith p CHR ''('' \<Longrightarrow> params_loop ps u i acc = Inr acc"
  by (induction ps arbitrary: i) simp_all

lemma dispatch_path_present:
  assumes "bindingData_path ctx = Some u"
  shows "\<exists>params.
      params_loop (shift (split_slash key)) (urlParts_of (Some u)) 0 Map.empty = Inr params \<and>
      dispatch run ctx key rt = ([(handler rt, ctx, params)], run (handler rt) ctx params)"
proof -
  have "urlParts_of (Some u) \<noteq> Undefined"
    by (simp add: urlParts_of_def)
  from params_loop_total [OF this, of "shift (split_slash key)" 0 Map.empty]
  obtain params where
    "params_loop (shift (split_slash key)) (urlParts_of (Some u)) 0 Map.empty = Inr params" ..
  then show ?thesis
    by (simp add: dispatch_def assms)
qed

lemma dispatch_path_absent:
  assumes "bindingData_path ctx = None"
  shows "dispatch run ctx key rt =
     (if \<exists>p\<in>set (shift (split_slash key)). startsWith p CHR ''(''
      then ([], Rejected (Thrown TypeError))
      else ([(handler rt, ctx, Map.empty)], run (handler rt) ctx Map.empty))"
  by (simp add: dispatch_def assms urlParts_of_def params_loop_Undefined)

lemma split_slash_single_empty: "split_slash u = [[]] \<longleftrightarrow> u = []"
proof (cases u)
  case Nil
  then show ?thesis by simp
next
  case (Cons c cs)
  then show ?thesis
    using split_slash_nonempty [of cs] by (auto split: list.splits)
qed

lemma distinct_keys_addRoute:
  "distinct (map fst (routeHandlers r)) \<Longrightarrow>
   distinct (map fst (routeHandlers (addRoute m path h r)))"
  by (simp add: addRoute_def distinct_map_set)

lemma addRoute_twice:
  "addRoute m path h2 (addRoute m path h1 r) = addRoute m path h2 r"
  by (simp add: addRoute_def map_set_twice)

lemma route_dispatches_first_match:
  assumes "routeHandlers r = pre @ (key, rt) # post"
    and "req ctx = Some rq" and "bindingData_path ctx = Some u"
    and "\<forall>e\<in>set pre. \<not> test (snd e) (req_method rq) (bindingData_path ctx)"
    and "test rt (req_method rq) (bindingData_path ctx)"
  shows "\<exists>params. route run r ctx =
     \<lparr>router = r, calls = [(handler rt, ctx, params)], outcome = run (handler rt) ctx params\<rparr>"
proof -
  from dispatch_path_present [OF assms(3), of key run rt]
  obtain params where
    "dispatch run ctx key rt = ([(handler rt, ctx, params)], run (handler rt) ctx params)"
    by auto
  with route_loop_first_match [OF assms(2) assms(4) assms(5), of run key post]
  have "route run r ctx =
      \<lparr>router = r, calls = [(handler rt, ctx, params)], outcome = run (handler rt) ctx params\<rparr>"
    by (simp add: route_def assms(1))
  then show ?thesis by blast
qed

lemma dispatch_st_router:
  "dispatch_st run ctx key rt r = (cs, out, r') \<Longrightarrow>
   r' = (case cs of [] \<Rightarrow> r | c # _ \<Rightarrow> snd (run (fst c) (fst (snd c)) (snd (snd c)) r))"
  by (auto simp: dispatch_st_def Let_def split: sum.splits prod.splits)

lemma route_loop_st_router:
  "route_loop_st run ctx r es = (cs, out, r') \<Longrightarrow>
   r' = (case cs of [] \<Rightarrow> r | c # _ \<Rightarrow> snd (run (fst c) (fst (snd c)) (snd (snd c)) r))"
proof (induction es)
  case Nil
  then show ?case by simp
next
  case (Cons e es)
  obtain key rt where e: "e = (key, rt)" by (cases e)
  show ?case
  proof (cases "req ctx")
    case None
    with Cons.prems show ?thesis by (simp add: e)
  next
    case (Some rq)
    show ?thesis
    proof (cases "test rt (req_method rq) (bindingData_path ctx)")
      case True
      with Cons.prems Some have "dispatch_st run ctx key rt r = (cs, out, r')"
        by (simp add: e)
      then show ?thesis by (rule dispatch_st_router)
    next
      case False
      with Cons.prems Some have "route_loop_st run ctx r es = (cs, out, r')"
        by (simp add: e)
      then show ?thesis by (rule Cons.IH)
    qed
  qed
qed

lemma router_route_st:
  "router (route_st run r ctx) =
     (case calls (route_st run r ctx) of
        [] \<Rightarrow> r
      | c # cs \<Rightarrow> snd (run (fst c) (fst (snd c)) (snd (snd c)) r))"
proof -
  obtain cs out r' where lp: "route_loop_st run ctx r (routeHandlers r) = (cs, out, r')"
    by (cases "route_loop_st run ctx r (routeHandlers r)") auto
  then have "router (route_st run r ctx) = r'" "calls (route_st run r ctx) = cs"
    by (simp_all add: route_st_def)
  with route_loop_st_router [OF lp] show ?thesis by simp
qed

lemma router_route_st_leaves_router:
  "router (route_st (leaves_router run) r ctx) = r"
  by (simp add: router_route_st [of "leaves_router run"] leaves_router_def split: list.splits)

lemma dispatch_st_leaves_router:
  "dispatch_st (leaves_router run) ctx key rt r =
     (case dispatch run ctx key rt of (cs, out) \<Rightarrow> (cs, out, r))"
  by (simp add: dispatch_st_def dispatch_def leaves_router_def Let_def split: sum.splits)

lemma route_loop_st_leaves_router:
  "route_loop_st (leaves_router run) ctx r es =
     (case route_loop run ctx es of (cs, out) \<Rightarrow> (cs, out, r))"
proof (induction es)
  case Nil
  show ?case by simp
next
  case (Cons e es)
  obtain key rt where e: "e = (key, rt)" by (cases e)
  show ?case
    by (simp add: e Cons.IH dispatch_st_leaves_router split: option.splits)
qed

lemma route_st_leaves_router:
  "route_st (leaves_router run) r ctx = route run r ctx"
  by (simp add: route_st_def route_def route_loop_st_leaves_router split: prod.splits)

lemma route_seq_leaves_router:
  "route_seq r (map (\<lambda>(run, ctx). (leaves_router run, ctx)) reqs) =
     (r, map (\<lambda>(run, ctx). route_st (leaves_router run) r ctx) reqs)"
proof (induction reqs)
  case Nil
  show ?case by simp
next
  case (Cons q reqs)
  obtain run ctx where q: "q = (run, ctx)" by (cases q)
  from Cons.IH show ?case
    by (simp add: q router_route_st_leaves_router)
qed

section \<open>Evaluating concrete routers\<close>

lemma getMockContext_sel [simp]:
  "req (getMockContext m p) = Some \<lparr>req_method = Some m\<rparr>"
  "bindingData_path (getMockContext m p) = p"
  by (simp_all add: getMockContext_def)

lemmas eval_defs = route_def addRoute_def new_Router_def dispatch_def
  addRoute_test_def shift_def urlParts_of_def get_index_def array_get_def set_prop_def
  proto_name_def replace_parens_def ok_run_def failing_run_def NOT_FOUND_def
  handlers_called_def params_passed_def registrations_def endsWith_def
  spec_wrapped_in_parens_def

section \<open>Dispatch to the first matching route\<close>

text \<open>
  Claim C1, as amended. Let a route (method, pattern, handler) be registered, the method
  being an \<^verbatim>\<open>HttpMethod\<close> (no \<^verbatim>\<open>/\<close> in it). If the request's method equals the
  route's method, the path remainder is a non-empty string with exactly as many segments
  as the pattern, every pattern segment that does not begin with \<^verbatim>\<open>(\<close> equals the
  request segment at the same index, and no route earlier in the collection accepts the
  request, then \<^verbatim>\<open>route\<close> invokes that handler exactly once and returns the handler's
  result unmodified. The parameters passed bind the name of a parameter segment (all
  parentheses removed) to the request segment at the same index, provided the name is
  not \<^verbatim>\<open>__proto__\<close> and no later parameter segment of the pattern has the same name.
\<close>

theorem route_invokes_first_matching_handler:
  assumes "routeHandlers r =
      pre @ (m @ pattern, \<lparr>test = addRoute_test m pathParts, handler = h\<rparr>) # post"
    and "pathParts = shift (split_slash pattern)"
    and "CHR ''/'' \<notin> set m"
    and "req ctx = Some rq" and "req_method rq = Some m"
    and "bindingData_path ctx = Some u" and "u \<noteq> []"
    and "urlParts = split_slash u"
    and "length urlParts = length pathParts"
    and "\<forall>i<length pathParts.
           \<not> startsWith (pathParts ! i) CHR ''('' \<longrightarrow> urlParts ! i = pathParts ! i"
    and "\<forall>e\<in>set pre. \<not> test (snd e) (req_method rq) (bindingData_path ctx)"
  shows "\<exists>params.
      route run r ctx = \<lparr>router = r, calls = [(h, ctx, params)], outcome = run h ctx params\<rparr> \<and>
      (\<forall>i<length pathParts.
         startsWith (pathParts ! i) CHR ''('' \<and>
         replace_parens (pathParts ! i) \<noteq> proto_name \<and>
         (\<forall>j<length pathParts. i < j \<and> startsWith (pathParts ! j) CHR ''('' \<longrightarrow>
            replace_parens (pathParts ! j) \<noteq> replace_parens (pathParts ! i)) \<longrightarrow>
         params (replace_parens (pathParts ! i)) = Some (Str (urlParts ! i)))"
proof -
  let ?rt = "\<lparr>test = addRoute_test m pathParts, handler = h\<rparr>"
  have us: "urlParts = split_slash (case Some u of None \<Rightarrow> [] | Some u \<Rightarrow> u)"
    by (simp add: assms(8))
  have "addRoute_test m pathParts (Some m) (Some u)"
    using assms(9) assms(10) by (simp add: addRoute_test_iff [OF us])
  then have acc: "test ?rt (req_method rq) (bindingData_path ctx)"
    by (simp add: assms(5) assms(6))
  have key: "shift (split_slash (m @ pattern)) = pathParts"
    by (simp add: shift_split_slash_key [OF assms(3)] assms(2))
  have up: "urlParts_of (Some u) = Arr urlParts"
    by (simp add: urlParts_of_def assms(7) assms(8))
  from dispatch_path_present [OF assms(6), of "m @ pattern" run ?rt]
  obtain params where
    pl: "params_loop pathParts (Arr urlParts) 0 Map.empty = Inr params" and
    dp: "dispatch run ctx (m @ pattern) ?rt = ([(h, ctx, params)], run h ctx params)"
    by (auto simp: key up)
  from route_loop_first_match [OF assms(4) assms(11) acc, of run "m @ pattern" post] dp
  have res: "route run r ctx =
      \<lparr>router = r, calls = [(h, ctx, params)], outcome = run h ctx params\<rparr>"
    by (simp add: route_def assms(1))
  have "params (replace_parens (pathParts ! i)) = Some (Str (urlParts ! i))"
    if i: "i < length pathParts"
      and sw: "startsWith (pathParts ! i) CHR ''(''"
      and np: "replace_parens (pathParts ! i) \<noteq> proto_name"
      and later: "\<forall>j<length pathParts. i < j \<and> startsWith (pathParts ! j) CHR ''('' \<longrightarrow>
            replace_parens (pathParts ! j) \<noteq> replace_parens (pathParts ! i)"
    for i
  proof -
    from params_loop_binds [OF pl i sw np later]
    have "params (replace_parens (pathParts ! i)) = Some (array_get urlParts i)" by simp
    with i assms(9) show ?thesis by (simp add: array_get_def)
  qed
  with res show ?thesis by blast
qed

theorem route_invokes_first_matching_handler_witness:
  "handlers_called (route ok_run
      (addRoute ''POST'' ''/nodes/(nodeId)/users/(userId)/access'' 10 new_Router)
      (getMockContext ''POST'' (Some ''nodes/someNodeId/users/someUserId/access''))) = [10] \<and>
   params_passed (route ok_run
      (addRoute ''POST'' ''/nodes/(nodeId)/users/(userId)/access'' 10 new_Router)
      (getMockContext ''POST'' (Some ''nodes/someNodeId/users/someUserId/access''))) ''nodeId'' =
     [Some (Str ''someNodeId'')] \<and>
   params_passed (route ok_run
      (addRoute ''POST'' ''/nodes/(nodeId)/users/(userId)/access'' 10 new_Router)
      (getMockContext ''POST'' (Some ''nodes/someNodeId/users/someUserId/access''))) ''userId'' =
     [Some (Str ''someUserId'')]"
proof -
  let ?pat = "''/nodes/(nodeId)/users/(userId)/access''"
  let ?u = "''nodes/someNodeId/users/someUserId/access''"
  let ?ps = "[''nodes'', ''(nodeId)'', ''users'', ''(userId)'', ''access'']"
  let ?us = "[''nodes'', ''someNodeId'', ''users'', ''someUserId'', ''access'']"
  let ?r = "addRoute ''POST'' ?pat (10::nat) new_Router"
  let ?ctx = "getMockContext ''POST'' (Some ?u)"
  let ?rq = "\<lparr>req_method = Some ''POST''\<rparr>"
  have a: "routeHandlers ?r =
      [] @ (''POST'' @ ?pat, \<lparr>test = addRoute_test ''POST'' ?ps, handler = 10\<rparr>) # []"
    by (simp add: addRoute_def new_Router_def shift_def)
  have b: "?ps = shift (split_slash ?pat)" by (simp add: shift_def)
  have c: "CHR ''/'' \<notin> set ''POST''" by simp
  have d: "req ?ctx = Some ?rq" by simp
  have e: "req_method ?rq = Some ''POST''" by simp
  have f: "bindingData_path ?ctx = Some ?u" by simp
  have g: "?u \<noteq> []" by simp
  have i: "?us = split_slash ?u" by simp
  have j: "length ?us = length ?ps" by simp
  have k: "\<forall>i<length ?ps. \<not> startsWith (?ps ! i) CHR ''('' \<longrightarrow> ?us ! i = ?ps ! i"
    by (simp add: less_Suc_eq)
  have l: "\<forall>e\<in>set []. \<not> test (snd e) (req_method ?rq) (bindingData_path ?ctx)" by simp
  from route_invokes_first_matching_handler [of ?r "[]" "''POST''" ?pat ?ps 10 "[]" ?ctx ?rq ?u ?us ok_run,
      OF a b c d e f g i j k l]
  obtain params where
    res: "route ok_run ?r ?ctx =
       \<lparr>router = ?r, calls = [(10, ?ctx, params)], outcome = ok_run 10 ?ctx params\<rparr>" and
    bind: "\<forall>i<length ?ps.
         startsWith (?ps ! i) CHR ''('' \<and>
         replace_parens (?ps ! i) \<noteq> proto_name \<and>
         (\<forall>j<length ?ps. i < j \<and> startsWith (?ps ! j) CHR ''('' \<longrightarrow>
            replace_parens (?ps ! j) \<noteq> replace_parens (?ps ! i)) \<longrightarrow>
         params (replace_parens (?ps ! i)) = Some (Str (?us ! i))"
    by blast
  from bind [rule_format, of 1] have n: "params ''nodeId'' = Some (Str ''someNodeId'')"
    by (simp add: replace_parens_def proto_name_def less_Suc_eq)
  from bind [rule_format, of 3] have v: "params ''userId'' = Some (Str ''someUserId'')"
    by (simp add: replace_parens_def proto_name_def less_Suc_eq)
  from res n v show ?thesis
    by (simp add: handlers_called_def params_passed_def)
qed

text \<open>
  The claim as stated binds every parameter segment's name to the request segment at that
  segment's index. With the pattern \<^verbatim>\<open>/(id)/(__proto__)/(id)\<close> and the path
  \<^verbatim>\<open>a/b/c\<close> the handler is called once, but \<^verbatim>\<open>id\<close>, the name of the segment at
  index 0, is bound to \<^verbatim>\<open>c\<close> and not to \<^verbatim>\<open>a\<close>: the later segment of the same name
  overwrites it. The name \<^verbatim>\<open>__proto__\<close> is not bound at all.
\<close>

theorem route_params_duplicate_name_counterexample:
  "shift (split_slash ''/(id)/(__proto__)/(id)'') = [''(id)'', ''(__proto__)'', ''(id)''] \<and>
   split_slash ''a/b/c'' = [''a'', ''b'', ''c''] \<and>
   handlers_called (route ok_run (addRoute ''GET'' ''/(id)/(__proto__)/(id)'' 10 new_Router)
      (getMockContext ''GET'' (Some ''a/b/c''))) = [10] \<and>
   params_passed (route ok_run (addRoute ''GET'' ''/(id)/(__proto__)/(id)'' 10 new_Router)
      (getMockContext ''GET'' (Some ''a/b/c''))) ''id'' = [Some (Str ''c'')] \<and>
   params_passed (route ok_run (addRoute ''GET'' ''/(id)/(__proto__)/(id)'' 10 new_Router)
      (getMockContext ''GET'' (Some ''a/b/c''))) ''id'' \<noteq> [Some (Str ''a'')] \<and>
   params_passed (route ok_run (addRoute ''GET'' ''/(id)/(__proto__)/(id)'' 10 new_Router)
      (getMockContext ''GET'' (Some ''a/b/c''))) ''__proto__'' = [None]"
  by (simp add: eval_defs)

section \<open>No route matches\<close>

text \<open>
  Claim C2, as amended. For every router and every request such that no registered
  route's predicate returns true for the request's method and path, \<^verbatim>\<open>route\<close>
  resolves to the response with status 404, no headers and body \<^verbatim>\<open>null\<close>, invokes no
  handler and leaves the router as it was.
\<close>

theorem route_not_found_when_no_match:
  assumes "req ctx = Some rq"
    and "\<forall>e\<in>set (routeHandlers r). \<not> test (snd e) (req_method rq) (bindingData_path ctx)"
  shows "route run r ctx =
     \<lparr>router = r, calls = [],
      outcome = Resolved \<lparr>headers = None, status = 404, body = BodyNull\<rparr>\<rparr>"
  using route_loop_no_match [OF assms, of run] by (simp add: route_def NOT_FOUND_def)

theorem route_not_found_when_no_match_witness:
  "route ok_run (addRoute ''GET'' ''/users/(userId)'' 10 new_Router)
      (getMockContext ''DELETE'' (Some ''users/someUserId'')) =
   \<lparr>router = addRoute ''GET'' ''/users/(userId)'' 10 new_Router, calls = [],
      outcome = Resolved \<lparr>headers = None, status = 404, body = BodyNull\<rparr>\<rparr>"
proof -
  let ?ctx = "getMockContext ''DELETE'' (Some ''users/someUserId'')"
  let ?r = "addRoute ''GET'' ''/users/(userId)'' (10::nat) new_Router"
  have a: "req ?ctx = Some \<lparr>req_method = Some ''DELETE''\<rparr>"
    by simp
  have b: "\<forall>e\<in>set (routeHandlers ?r).
      \<not> test (snd e) (req_method \<lparr>req_method = Some ''DELETE''\<rparr>) (bindingData_path ?ctx)"
    by (simp add: eval_defs)
  show ?thesis
    by (rule route_not_found_when_no_match
          [of ?ctx "\<lparr>req_method = Some ''DELETE''\<rparr>" ?r ok_run, OF a b])
qed

text \<open>
  The claim as stated asks for the body \<^verbatim>\<open>undefined\<close>. On a router without routes the
  fallback response carries \<^verbatim>\<open>null\<close>, which is a different value.
\<close>

theorem route_not_found_body_counterexample:
  "outcome (route ok_run new_Router (getMockContext ''GET'' (Some ''users''))) =
     Resolved \<lparr>headers = None, status = 404, body = BodyNull\<rparr> \<and>
   outcome (route ok_run new_Router (getMockContext ''GET'' (Some ''users''))) \<noteq>
     Resolved \<lparr>headers = None, status = 404, body = BodyUndefined\<rparr>"
  by (simp add: eval_defs)

section \<open>The predicate built by addRoute\<close>

text \<open>
  Claim C3, as amended. For every route registered by
  \<^verbatim>\<open>addRoute(method, pathPattern, handler)\<close> and every request method and request
  path, the stored predicate returns true if and only if the request method equals the
  route's method, the pattern has as many segments (its first segment discarded) as the
  request path, and every pattern segment that does not begin with \<^verbatim>\<open>(\<close> equals the
  request segment at the same index; a segment that begins with \<^verbatim>\<open>(\<close> matches any
  value at its position. An absent request path is split as the empty string. The entry
  is found under the key \<^verbatim>\<open>method + pathPattern\<close>, and it carries the handler given.
\<close>

theorem addRoute_test_matches:
  assumes "pathParts = shift (split_slash pathPattern)"
    and "urlParts = split_slash (case requestPath of None \<Rightarrow> [] | Some u \<Rightarrow> u)"
  shows "\<exists>rt. map_of (routeHandlers (addRoute m pathPattern h r)) (m @ pathPattern) = Some rt \<and>
      handler rt = h \<and>
      (test rt requestMethod requestPath \<longleftrightarrow>
         requestMethod = Some m \<and> length pathParts = length urlParts \<and>
         (\<forall>i<length pathParts.
            \<not> startsWith (pathParts ! i) CHR ''('' \<longrightarrow> urlParts ! i = pathParts ! i))"
  using addRoute_test_iff [OF assms(2), of m pathParts requestMethod]
  by (simp add: addRoute_def map_of_map_set assms(1))

theorem addRoute_test_matches_witness:
  "\<exists>rt. map_of (routeHandlers (addRoute ''GET'' ''/users/(userId)'' (10::nat) new_Router))
          ''GET/users/(userId)'' = Some rt \<and>
        handler rt = 10 \<and>
        test rt (Some ''GET'') (Some ''users/someUserId'') \<and>
        \<not> test rt (Some ''GET'') (Some ''nodes/someUserId'') \<and>
        \<not> test rt (Some ''GET'') (Some ''users'') \<and>
        \<not> test rt (Some ''POST'') (Some ''users/someUserId'')"
proof -
  have p: "[''users'', ''(userId)''] = shift (split_slash ''/users/(userId)'')"
    by (simp add: shift_def)
  have u1: "[''users'', ''someUserId''] =
      split_slash (case Some ''users/someUserId'' of None \<Rightarrow> [] | Some u \<Rightarrow> u)"
    by simp
  have u2: "[''users''] = split_slash (case Some ''users'' of None \<Rightarrow> [] | Some u \<Rightarrow> u)"
    by simp
  have u3: "[''nodes'', ''someUserId''] =
      split_slash (case Some ''nodes/someUserId'' of None \<Rightarrow> [] | Some u \<Rightarrow> u)"
    by simp
  from addRoute_test_matches [OF p u1, of "''GET''" "10::nat" new_Router "Some ''GET''"]
  obtain rt where rt:
    "map_of (routeHandlers (addRoute ''GET'' ''/users/(userId)'' (10::nat) new_Router))
       ''GET/users/(userId)'' = Some rt" "handler rt = 10"
    and t1: "test rt (Some ''GET'') (Some ''users/someUserId'')"
    by (auto simp: less_Suc_eq)
  from addRoute_test_matches [OF p u2, of "''GET''" "10::nat" new_Router "Some ''GET''"] rt
  have t2: "\<not> test rt (Some ''GET'') (Some ''users'')"
    by simp
  from addRoute_test_matches [OF p u3, of "''GET''" "10::nat" new_Router "Some ''GET''"] rt
  have t3: "\<not> test rt (Some ''GET'') (Some ''nodes/someUserId'')"
    by (auto simp: less_Suc_eq)
  from addRoute_test_matches [OF p u1, of "''GET''" "10::nat" new_Router "Some ''POST''"] rt
  have t4: "\<not> test rt (Some ''POST'') (Some ''users/someUserId'')"
    by simp
  from rt t1 t2 t3 t4 show ?thesis by blast
qed

text \<open>
  The claim as stated takes every segment that is not marked by the delimiter pair for a
  literal. In the pattern \<^verbatim>\<open>/users/(id\<close> the segment \<^verbatim>\<open>(id\<close> is not wrapped in the
  pair, and it differs from \<^verbatim>\<open>abc\<close>; the predicate accepts the path
  \<^verbatim>\<open>users/abc\<close> all the same, so it returns true where the stated condition is false.
\<close>

theorem addRoute_test_unwrapped_segment_counterexample:
  "addRoute_test ''GET'' (shift (split_slash ''/users/(id'')) (Some ''GET'') (Some ''users/abc'') \<and>
   \<not> spec_test_condition ''GET'' (shift (split_slash ''/users/(id'')) (Some ''GET'')
       (split_slash ''users/abc'')"
  by (simp add: eval_defs spec_test_condition_def less_Suc_eq)

section \<open>The root route\<close>

text \<open>
  Claim C4, as amended. Let the pattern \<^verbatim>\<open>/\<close> be registered with method GET, and let a
  GET request be such that no route earlier in the collection accepts it. If the path
  remainder is absent or the empty string, \<^verbatim>\<open>route\<close> invokes the root route's handler
  once, with an empty parameters object, and returns its result. If the path remainder
  is a non-empty string, the root route's predicate rejects the request.
\<close>

theorem root_route_matches_absent_or_empty_path:
  assumes "routeHandlers r =
      pre @ (''GET/'', \<lparr>test = addRoute_test ''GET'' (shift (split_slash ''/'')), handler = h\<rparr>) # post"
    and "req ctx = Some rq" and "req_method rq = Some ''GET''"
    and "\<forall>e\<in>set pre. \<not> test (snd e) (req_method rq) (bindingData_path ctx)"
  shows "(if bindingData_path ctx = None \<or> bindingData_path ctx = Some []
          then route run r ctx =
             \<lparr>router = r, calls = [(h, ctx, Map.empty)], outcome = run h ctx Map.empty\<rparr>
          else \<not> addRoute_test ''GET'' (shift (split_slash ''/'')) (Some ''GET'')
                 (bindingData_path ctx))"
proof (cases "bindingData_path ctx = None \<or> bindingData_path ctx = Some []")
  case True
  let ?rt = "\<lparr>test = addRoute_test ''GET'' (shift (split_slash ''/'')), handler = h\<rparr>"
  from True have acc: "test ?rt (req_method rq) (bindingData_path ctx)"
    by (auto simp: assms(3) addRoute_test_def shift_def array_get_def)
  have "dispatch run ctx ''GET/'' ?rt = ([(h, ctx, Map.empty)], run h ctx Map.empty)"
    by (simp add: dispatch_def shift_def)
  with route_loop_first_match [OF assms(2) assms(4) acc, of run "''GET/''" post]
  have "route_loop run ctx (routeHandlers r) = ([(h, ctx, Map.empty)], run h ctx Map.empty)"
    by (simp add: assms(1))
  with True show ?thesis by (simp add: route_def)
next
  case False
  then obtain u where u: "bindingData_path ctx = Some u" "u \<noteq> []" by auto
  have "\<not> addRoute_test ''GET'' [[]] (Some ''GET'') (Some u)"
  proof
    assume "addRoute_test ''GET'' [[]] (Some ''GET'') (Some u)"
    with addRoute_test_iff [of "split_slash u" "Some u" "''GET''" "[[]]" "Some ''GET''"]
    have "length (split_slash u) = 1" "split_slash u ! 0 = []" by simp_all
    then have "split_slash u = [[]]"
      by (cases "split_slash u") auto
    with u(2) show False by (simp add: split_slash_single_empty)
  qed
  with False u show ?thesis by (simp add: shift_def)
qed

theorem root_route_matches_absent_or_empty_path_witness:
  "route ok_run (addRoute ''GET'' ''/some/path'' 20 (addRoute ''GET'' ''/'' 10 new_Router))
      (getMockContext ''GET'' None) =
     \<lparr>router = addRoute ''GET'' ''/some/path'' 20 (addRoute ''GET'' ''/'' 10 new_Router),
      calls = [(10, getMockContext ''GET'' None, Map.empty)],
      outcome = ok_run 10 (getMockContext ''GET'' None) Map.empty\<rparr> \<and>
   \<not> addRoute_test ''GET'' (shift (split_slash ''/'')) (Some ''GET'') (Some ''some/path'')"
proof -
  let ?r = "addRoute ''GET'' ''/some/path'' 20 (addRoute ''GET'' ''/'' (10::nat) new_Router)"
  let ?rq = "\<lparr>req_method = Some ''GET''\<rparr>"
  let ?post = "[(''GET/some/path'',
      \<lparr>test = addRoute_test ''GET'' (shift (split_slash ''/some/path'')), handler = 20::nat\<rparr>)]"
  have a: "routeHandlers ?r =
      [] @ (''GET/'', \<lparr>test = addRoute_test ''GET'' (shift (split_slash ''/'')), handler = 10\<rparr>) # ?post"
    by (simp add: addRoute_def new_Router_def)
  have b: "req (getMockContext ''GET'' None) = Some ?rq" by simp
  have c: "req_method ?rq = Some ''GET''" by simp
  have d: "\<forall>e\<in>set []. \<not> test (snd e) (req_method ?rq) (bindingData_path (getMockContext ''GET'' None))"
    by simp
  have e: "req (getMockContext ''GET'' (Some ''some/path'')) = Some ?rq" by simp
  have f: "\<forall>e\<in>set []. \<not> test (snd e) (req_method ?rq)
      (bindingData_path (getMockContext ''GET'' (Some ''some/path'')))"
    by simp
  from root_route_matches_absent_or_empty_path
         [of ?r "[]" 10 ?post "getMockContext ''GET'' None" ?rq ok_run, OF a b c d]
       root_route_matches_absent_or_empty_path
         [of ?r "[]" 10 ?post "getMockContext ''GET'' (Some ''some/path'')" ?rq ok_run, OF a e c f]
  show ?thesis by simp
qed

text \<open>
  The claim as stated holds of every router in which the root route is registered. In
  the router below the pattern \<^verbatim>\<open>/(x)\<close> was registered first; a GET request with the
  empty string as path remainder is accepted by it and goes to its handler, with a
  parameters object that is not empty, and the root route's handler is not called.
\<close>

theorem root_route_shadowed_counterexample:
  "registrations (addRoute ''GET'' ''/'' 10 (addRoute ''GET'' ''/(x)'' 20 new_Router)) =
     [(''GET/(x)'', 20), (''GET/'', 10)] \<and>
   handlers_called (route ok_run (addRoute ''GET'' ''/'' 10 (addRoute ''GET'' ''/(x)'' 20 new_Router))
      (getMockContext ''GET'' (Some ''''))) = [20] \<and>
   params_passed (route ok_run (addRoute ''GET'' ''/'' 10 (addRoute ''GET'' ''/(x)'' 20 new_Router))
      (getMockContext ''GET'' (Some ''''))) ''x'' = [Some Undefined]"
  by (simp add: eval_defs)

section \<open>Registration order\<close>

text \<open>
  Claim C5 says that \<^verbatim>\<open>route\<close> dispatches to the handler of the first route, in
  registration order, whose predicate returns true. The loop does select that route
  (\<open>route_loop_first_match\<close>), and it calls its handler whenever the path remainder is
  present (\<open>route_dispatches_first_match\<close>). With one route of pattern \<^verbatim>\<open>/(name)\<close> and
  a GET request whose path remainder is absent, the predicate returns true (it reads the
  absent path as the empty string), but \<^verbatim>\<open>route\<close> then indexes the undefined
  \<^verbatim>\<open>urlParts\<close>: the promise is rejected with a TypeError and no handler is called.
\<close>

theorem route_absent_path_parameter_throws:
  "addRoute_test ''GET'' (shift (split_slash ''/(name)'')) (Some ''GET'') None \<and>
   route ok_run (addRoute ''GET'' ''/(name)'' 10 new_Router) (getMockContext ''GET'' None) =
     \<lparr>router = addRoute ''GET'' ''/(name)'' 10 new_Router, calls = [],
      outcome = Rejected (Thrown TypeError)\<rparr>"
  by (simp add: eval_defs)

section \<open>What marks a parameter segment\<close>

text \<open>
  Claim C6, as amended. A pattern segment is treated as a parameter segment if and only
  if it begins with \<^verbatim>\<open>(\<close>; how it ends does not matter. In a pattern whose other
  segments accept the request, the predicate accepts the request exactly when the segment
  begins with \<^verbatim>\<open>(\<close> or equals the request segment at its index; and the names bound
  in the parameters object are exactly the names (all parentheses removed) of the segments
  that begin with \<^verbatim>\<open>(\<close>, the name \<^verbatim>\<open>__proto__\<close> left out.
\<close>

theorem parameter_segment_iff_starts_with_paren:
  assumes "urlParts = split_slash (case requestPath of None \<Rightarrow> [] | Some u \<Rightarrow> u)"
    and "length urlParts = length pathParts" and "i < length pathParts"
    and "\<forall>k<length pathParts. k \<noteq> i \<longrightarrow>
           startsWith (pathParts ! k) CHR ''('' \<or> urlParts ! k = pathParts ! k"
  shows "(addRoute_test m pathParts (Some m) requestPath \<longleftrightarrow>
            startsWith (pathParts ! i) CHR ''('' \<or> urlParts ! i = pathParts ! i) \<and>
         (\<forall>params. params_loop pathParts (urlParts_of requestPath) 0 Map.empty = Inr params \<longrightarrow>
            dom params =
              replace_parens ` {p \<in> set pathParts. startsWith p CHR ''(''} - {proto_name})"
proof -
  have "(\<forall>k<length pathParts.
          \<not> startsWith (pathParts ! k) CHR ''('' \<longrightarrow> urlParts ! k = pathParts ! k) \<longleftrightarrow>
        startsWith (pathParts ! i) CHR ''('' \<or> urlParts ! i = pathParts ! i"
    using assms(3) assms(4) by metis
  then have "addRoute_test m pathParts (Some m) requestPath \<longleftrightarrow>
            startsWith (pathParts ! i) CHR ''('' \<or> urlParts ! i = pathParts ! i"
    by (simp add: addRoute_test_iff [OF assms(1)] assms(2))
  moreover have "dom params =
      replace_parens ` {p \<in> set pathParts. startsWith p CHR ''(''} - {proto_name}"
    if "params_loop pathParts (urlParts_of requestPath) 0 Map.empty = Inr params" for params
    using dom_params_loop [OF that] by simp
  ultimately show ?thesis by blast
qed

theorem parameter_segment_iff_starts_with_paren_witness:
  "addRoute_test ''GET'' [''users'', ''(id''] (Some ''GET'') (Some ''users/u1'') \<and>
   \<not> addRoute_test ''GET'' [''users'', ''id)''] (Some ''GET'') (Some ''users/u1'') \<and>
   dom [''id'' \<mapsto> Str ''u1''] = {''id''}"
proof -
  have u: "[''users'', ''u1''] = split_slash (case Some ''users/u1'' of None \<Rightarrow> [] | Some u \<Rightarrow> u)"
    by simp
  have l1: "length [''users'', ''u1''] = length [''users'', ''(id'']" by simp
  have l2: "length [''users'', ''u1''] = length [''users'', ''id)'']" by simp
  have i1: "(1::nat) < length [''users'', ''(id'']" by simp
  have i2: "(1::nat) < length [''users'', ''id)'']" by simp
  have o1: "\<forall>k<length [''users'', ''(id'']. k \<noteq> 1 \<longrightarrow>
      startsWith ([''users'', ''(id''] ! k) CHR ''('' \<or> [''users'', ''u1''] ! k = [''users'', ''(id''] ! k"
    by (simp add: less_Suc_eq)
  have o2: "\<forall>k<length [''users'', ''id)'']. k \<noteq> 1 \<longrightarrow>
      startsWith ([''users'', ''id)''] ! k) CHR ''('' \<or> [''users'', ''u1''] ! k = [''users'', ''id)''] ! k"
    by (simp add: less_Suc_eq)
  have p: "params_loop [''users'', ''(id''] (urlParts_of (Some ''users/u1'')) 0 Map.empty =
      Inr [''id'' \<mapsto> Str ''u1'']"
    by (simp add: urlParts_of_def get_index_def array_get_def set_prop_def proto_name_def
        replace_parens_def)
  from parameter_segment_iff_starts_with_paren [OF u l1 i1 o1, of "''GET''"]
       parameter_segment_iff_starts_with_paren [OF u l2 i2 o2, of "''GET''"] p
  show ?thesis
    by (simp add: replace_parens_def proto_name_def)
qed

text \<open>
  The claim as stated makes a segment a parameter only when it both begins with
  \<^verbatim>\<open>(\<close> and ends with \<^verbatim>\<open>)\<close>, and requires exact equality of every other segment.
  The segment \<^verbatim>\<open>(id\<close> is not wrapped, and differs from \<^verbatim>\<open>xyz\<close>; yet the route
  \<^verbatim>\<open>/(id\<close> accepts the path \<^verbatim>\<open>xyz\<close> and binds \<^verbatim>\<open>id\<close> to it.
\<close>

theorem unclosed_paren_segment_counterexample:
  "\<not> spec_wrapped_in_parens ''(id'' \<and> ''xyz'' \<noteq> ''(id'' \<and>
   addRoute_test ''GET'' (shift (split_slash ''/(id'')) (Some ''GET'') (Some ''xyz'') \<and>
   handlers_called (route ok_run (addRoute ''GET'' ''/(id'' 10 new_Router)
      (getMockContext ''GET'' (Some ''xyz''))) = [10] \<and>
   params_passed (route ok_run (addRoute ''GET'' ''/(id'' 10 new_Router)
      (getMockContext ''GET'' (Some ''xyz''))) ''id'' = [Some (Str ''xyz'')]"
  by (simp add: eval_defs)

section \<open>Registering the same key twice\<close>

text \<open>
  Claim C7, as amended. Calling \<^verbatim>\<open>addRoute\<close> twice with the same method and the same
  raw path leaves the router exactly as the second call alone would: only the second
  registration is stored. For a later request whose path remainder is present, which the
  route under that key accepts and no route earlier in the collection accepts,
  \<^verbatim>\<open>route\<close> makes one handler call, to the handler of the later registration, and
  returns its result. The keys of a map are distinct.
\<close>

theorem addRoute_twice_last_wins:
  assumes "r2 = addRoute m path h2 (addRoute m path h1 r)"
    and "distinct (map fst (routeHandlers r))"
    and "routeHandlers r2 = pre @ (m @ path, rt) # post"
    and "req ctx = Some rq" and "bindingData_path ctx = Some u"
    and "\<forall>e\<in>set pre. \<not> test (snd e) (req_method rq) (bindingData_path ctx)"
    and "test rt (req_method rq) (bindingData_path ctx)"
  shows "r2 = addRoute m path h2 r \<and>
     rt = \<lparr>test = addRoute_test m (shift (split_slash path)), handler = h2\<rparr> \<and>
     (\<exists>params. route run r2 ctx =
        \<lparr>router = r2, calls = [(h2, ctx, params)], outcome = run h2 ctx params\<rparr>)"
proof -
  let ?new = "\<lparr>test = addRoute_test m (shift (split_slash path)), handler = h2\<rparr>"
  have r2: "r2 = addRoute m path h2 r"
    by (simp add: assms(1) addRoute_twice)
  then have "distinct (map fst (routeHandlers r2))"
    by (simp add: distinct_keys_addRoute [OF assms(2)])
  moreover have "(m @ path, rt) \<in> set (routeHandlers r2)"
    by (simp add: assms(3))
  ultimately have "map_of (routeHandlers r2) (m @ path) = Some rt"
    by (rule map_of_is_SomeI)
  moreover have "map_of (routeHandlers r2) (m @ path) = Some ?new"
    by (simp add: r2 addRoute_def map_of_map_set)
  ultimately have rt: "rt = ?new" by simp
  from dispatch_path_present [OF assms(5), of "m @ path" run rt]
  obtain params where
    "dispatch run ctx (m @ path) rt = ([(h2, ctx, params)], run h2 ctx params)"
    by (auto simp: rt)
  with route_loop_first_match [OF assms(4) assms(6) assms(7), of run "m @ path" post]
  have "route run r2 ctx =
      \<lparr>router = r2, calls = [(h2, ctx, params)], outcome = run h2 ctx params\<rparr>"
    by (simp add: route_def assms(3))
  with r2 rt show ?thesis by blast
qed

theorem addRoute_twice_last_wins_witness:
  "addRoute ''GET'' ''/a'' (20::nat) (addRoute ''GET'' ''/a'' 10 (addRoute ''GET'' ''/(x)/(y)'' 30 new_Router)) =
     addRoute ''GET'' ''/a'' 20 (addRoute ''GET'' ''/(x)/(y)'' 30 new_Router) \<and>
   handlers_called (route ok_run
     (addRoute ''GET'' ''/a'' 20 (addRoute ''GET'' ''/a'' 10 (addRoute ''GET'' ''/(x)/(y)'' 30 new_Router)))
     (getMockContext ''GET'' (Some ''a''))) = [20]"
proof -
  let ?r = "addRoute ''GET'' ''/(x)/(y)'' (30::nat) new_Router"
  let ?r2 = "addRoute ''GET'' ''/a'' 20 (addRoute ''GET'' ''/a'' 10 ?r)"
  let ?ctx = "getMockContext ''GET'' (Some ''a'')"
  let ?rq = "\<lparr>req_method = Some ''GET''\<rparr>"
  let ?pre = "[(''GET/(x)/(y)'', \<lparr>test = addRoute_test ''GET'' [''(x)'', ''(y)''], handler = 30::nat\<rparr>)]"
  let ?rt = "\<lparr>test = addRoute_test ''GET'' [''a''], handler = 20::nat\<rparr>"
  have a: "?r2 = addRoute ''GET'' ''/a'' 20 (addRoute ''GET'' ''/a'' 10 ?r)" by simp
  have b: "distinct (map fst (routeHandlers ?r))"
    by (simp add: addRoute_def new_Router_def)
  have c: "routeHandlers ?r2 = ?pre @ (''GET'' @ ''/a'', ?rt) # []"
    by (simp add: addRoute_def new_Router_def shift_def)
  have d: "req ?ctx = Some ?rq" by simp
  have e: "bindingData_path ?ctx = Some ''a''" by simp
  have f: "\<forall>e\<in>set ?pre. \<not> test (snd e) (req_method ?rq) (bindingData_path ?ctx)"
    by (simp add: addRoute_test_def array_get_def)
  have g: "test ?rt (req_method ?rq) (bindingData_path ?ctx)"
    by (simp add: addRoute_test_def array_get_def)
  from addRoute_twice_last_wins [of ?r2 "''GET''" "''/a''" 20 10 ?r ?pre ?rt "[]" ?ctx ?rq "''a''" ok_run,
      OF a b c d e f g]
  show ?thesis
    by (auto simp: handlers_called_def)
qed

text \<open>
  The claim as stated sends every later request that matches the route to the handler of
  the later registration. Below, the pattern \<^verbatim>\<open>/(x)\<close> was registered before
  \<^verbatim>\<open>/a\<close> was registered twice; the path \<^verbatim>\<open>a\<close> matches the route \<^verbatim>\<open>/a\<close>, and
  the request goes to the handler of \<^verbatim>\<open>/(x)\<close>.
\<close>

theorem addRoute_twice_shadowed_counterexample:
  "registrations (addRoute ''GET'' ''/a'' 20 (addRoute ''GET'' ''/a'' 10
      (addRoute ''GET'' ''/(x)'' 30 new_Router))) = [(''GET/(x)'', 30), (''GET/a'', 20)] \<and>
   addRoute_test ''GET'' (shift (split_slash ''/a'')) (Some ''GET'') (Some ''a'') \<and>
   handlers_called (route ok_run (addRoute ''GET'' ''/a'' 20 (addRoute ''GET'' ''/a'' 10
      (addRoute ''GET'' ''/(x)'' 30 new_Router))) (getMockContext ''GET'' (Some ''a''))) = [30]"
  by (simp add: eval_defs)

section \<open>route and the route collection\<close>

text \<open>
  Claim C8, as amended. For every router state and every request, \<^verbatim>\<open>route\<close> itself
  never writes the route collection: after the call the router is the one it was given
  when no handler was invoked, and otherwise the one the invoked handler left. With
  handlers that leave the router alone the router is unchanged, and any sequence of such
  \<^verbatim>\<open>route\<close> calls ends with the same router, each call giving the result it gives on
  the router at the start.
\<close>

theorem route_changes_router_only_through_handler:
  "router (route_st run r ctx) =
     (case calls (route_st run r ctx) of
        [] \<Rightarrow> r
      | c # cs \<Rightarrow> snd (run (fst c) (fst (snd c)) (snd (snd c)) r)) \<and>
   router (route_st (leaves_router run0) r ctx) = r \<and>
   route_st (leaves_router run0) r ctx = route run0 r ctx \<and>
   route_seq r (map (\<lambda>(run, ctx). (leaves_router run, ctx)) reqs) =
     (r, map (\<lambda>(run, ctx). route_st (leaves_router run) r ctx) reqs)"
  using router_route_st [of run r ctx] router_route_st_leaves_router [of run0 r ctx]
    route_st_leaves_router [of run0 r ctx] route_seq_leaves_router [of r reqs]
  by (simp only: simp_thms)

text \<open>
  The claim as stated has the route collection unchanged after every \<^verbatim>\<open>route\<close> call.
  Below, the handler of the root route registers a route while it answers: after the
  call the router has two routes where it had one.
\<close>

theorem route_handler_registers_route_counterexample:
  "registrations (addRoute ''GET'' ''/'' 10 new_Router) = [(''GET/'', 10)] \<and>
   handlers_called (route_st registering_run (addRoute ''GET'' ''/'' 10 new_Router)
      (getMockContext ''GET'' None)) = [10] \<and>
   registrations (router (route_st registering_run (addRoute ''GET'' ''/'' 10 new_Router)
      (getMockContext ''GET'' None))) = [(''GET/'', 10), (''GET/late'', 99)]"
  by (simp add: eval_defs route_st_def dispatch_st_def registering_run_def)

section \<open>Handler failures\<close>

text \<open>
  Claim C9. For every router and every request, if a handler that \<^verbatim>\<open>route\<close> invokes
  returns a promise that rejects with an error, the promise of \<^verbatim>\<open>route\<close> rejects
  with that same error, and the handler was invoked once: nothing is caught, replaced or
  retried.
\<close>

theorem route_propagates_handler_rejection:
  assumes "(h, c, ps) \<in> set (calls (route run r ctx))"
    and "run h c ps = Rejected e"
  shows "outcome (route run r ctx) = Rejected e \<and> calls (route run r ctx) = [(h, c, ps)]"
proof -
  obtain cs out where lp: "route_loop run ctx (routeHandlers r) = (cs, out)"
    by (cases "route_loop run ctx (routeHandlers r)")
  then have res: "calls (route run r ctx) = cs" "outcome (route run r ctx) = out"
    by (simp_all add: route_def)
  from route_loop_calls [OF lp] consider "cs = []"
    | h' ps' where "cs = [(h', ctx, ps')]" "out = run h' ctx ps'"
    by blast
  then show ?thesis
  proof cases
    case 1
    with assms(1) res show ?thesis by simp
  next
    case 2
    from assms(1) res(1) 2(1) have eq: "(h', ctx, ps') = (h, c, ps)" by simp
    have "out = run h c ps"
      using 2(2) eq by simp
    then have o: "out = Rejected e"
      by (simp only: assms(2))
    from 2(1) eq have "cs = [(h, c, ps)]" by simp
    with o show ?thesis by (simp only: res simp_thms)
  qed
qed

theorem route_propagates_handler_rejection_witness:
  "outcome (route failing_run (addRoute ''GET'' ''/users/(userId)'' 10 new_Router)
      (getMockContext ''GET'' (Some ''users/u1''))) = Rejected (HandlerError ''boom'') \<and>
   calls (route failing_run (addRoute ''GET'' ''/users/(userId)'' 10 new_Router)
      (getMockContext ''GET'' (Some ''users/u1''))) =
     [(10, getMockContext ''GET'' (Some ''users/u1''), [''userId'' \<mapsto> Str ''u1''])]"
proof -
  let ?ctx = "getMockContext ''GET'' (Some ''users/u1'')"
  let ?r = "addRoute ''GET'' ''/users/(userId)'' (10::nat) new_Router"
  let ?ps = "[''userId'' \<mapsto> Str ''u1'']"
  have c: "calls (route failing_run ?r ?ctx) = [(10, ?ctx, ?ps)]"
    by (simp add: eval_defs)
  then have m: "(10, ?ctx, ?ps) \<in> set (calls (route failing_run ?r ?ctx))" by simp
  have f: "failing_run 10 ?ctx ?ps = Rejected (HandlerError ''boom'')"
    by (simp add: failing_run_def)
  show ?thesis
    by (rule route_propagates_handler_rejection
          [of 10 ?ctx ?ps failing_run ?r ?ctx "HandlerError ''boom''", OF m f])
qed

section \<open>An absent path and a parameter segment\<close>

text \<open>
  Claim C10, as amended. Let a router contain a route whose pattern has at least one
  parameter segment and whose predicate accepts the absent path, the method being an
  \<^verbatim>\<open>HttpMethod\<close> (no \<^verbatim>\<open>/\<close> in it). For a request with that method and an absent
  path remainder that no route earlier in the collection accepts, \<^verbatim>\<open>route\<close> fails
  during parameter extraction: its promise is rejected with a TypeError and no handler is
  called.
\<close>

theorem route_absent_path_parameter_type_error:
  assumes "routeHandlers r =
      pre @ (m @ pattern, \<lparr>test = addRoute_test m pathParts, handler = h\<rparr>) # post"
    and "pathParts = shift (split_slash pattern)"
    and "CHR ''/'' \<notin> set m"
    and "\<exists>p\<in>set pathParts. startsWith p CHR ''(''"
    and "addRoute_test m pathParts (Some m) None"
    and "req ctx = Some rq" and "req_method rq = Some m"
    and "bindingData_path ctx = None"
    and "\<forall>e\<in>set pre. \<not> test (snd e) (req_method rq) (bindingData_path ctx)"
  shows "route run r ctx = \<lparr>router = r, calls = [], outcome = Rejected (Thrown TypeError)\<rparr>"
proof -
  let ?rt = "\<lparr>test = addRoute_test m pathParts, handler = h\<rparr>"
  have acc: "test ?rt (req_method rq) (bindingData_path ctx)"
    using assms(5) by (simp add: assms(7) assms(8))
  have key: "shift (split_slash (m @ pattern)) = pathParts"
    by (simp add: shift_split_slash_key [OF assms(3)] assms(2))
  have "dispatch run ctx (m @ pattern) ?rt = ([], Rejected (Thrown TypeError))"
    using assms(4) by (simp add: dispatch_path_absent [OF assms(8)] key)
  with route_loop_first_match [OF assms(6) assms(9) acc, of run "m @ pattern" post]
  show ?thesis
    by (simp add: route_def assms(1))
qed

theorem route_absent_path_parameter_type_error_witness:
  "route ok_run (addRoute ''POST'' ''/(id)'' 20 (addRoute ''GET'' ''/'' 10 new_Router))
      (getMockContext ''POST'' None) =
     \<lparr>router = addRoute ''POST'' ''/(id)'' 20 (addRoute ''GET'' ''/'' 10 new_Router),
      calls = [], outcome = Rejected (Thrown TypeError)\<rparr>"
proof -
  let ?r = "addRoute ''POST'' ''/(id)'' 20 (addRoute ''GET'' ''/'' (10::nat) new_Router)"
  let ?rq = "\<lparr>req_method = Some ''POST''\<rparr>"
  let ?ctx = "getMockContext ''POST'' None"
  let ?pre = "[(''GET/'', \<lparr>test = addRoute_test ''GET'' (shift (split_slash ''/'')), handler = 10::nat\<rparr>)]"
  have a: "routeHandlers ?r =
      ?pre @ (''POST'' @ ''/(id)'', \<lparr>test = addRoute_test ''POST'' [''(id)''], handler = 20\<rparr>) # []"
    by (simp add: addRoute_def new_Router_def shift_def)
  have b: "[''(id)''] = shift (split_slash ''/(id)'')" by (simp add: shift_def)
  have c: "CHR ''/'' \<notin> set ''POST''" by simp
  have d: "\<exists>p\<in>set [''(id)'']. startsWith p CHR ''(''" by simp
  have e: "addRoute_test ''POST'' [''(id)''] (Some ''POST'') None"
    by (simp add: addRoute_test_def)
  have f: "req ?ctx = Some ?rq" by simp
  have g: "req_method ?rq = Some ''POST''" by simp
  have i: "bindingData_path ?ctx = None" by simp
  have j: "\<forall>e\<in>set ?pre. \<not> test (snd e) (req_method ?rq) (bindingData_path ?ctx)"
    by (simp add: addRoute_test_def)
  show ?thesis
    by (rule route_absent_path_parameter_type_error
          [of ?r ?pre "''POST''" "''/(id)''" "[''(id)'']" 20 "[]" ?ctx ?rq ok_run,
           OF a b c d e f g i j])
qed

text \<open>
  The claim as stated holds of every router that contains such a route. In the router
  below the root route was registered before \<^verbatim>\<open>/(name)\<close>; a GET request with an absent
  path remainder is accepted by the root route first, whose handler answers, and nothing
  fails.
\<close>

theorem route_absent_path_earlier_route_counterexample:
  "registrations (addRoute ''GET'' ''/(name)'' 20 (addRoute ''GET'' ''/'' 10 new_Router)) =
     [(''GET/'', 10), (''GET/(name)'', 20)] \<and>
   shift (split_slash ''/(name)'') = [''(name)''] \<and>
   startsWith ''(name)'' CHR ''('' \<and>
   addRoute_test ''GET'' (shift (split_slash ''/(name)'')) (Some ''GET'') None \<and>
   route ok_run (addRoute ''GET'' ''/(name)'' 20 (addRoute ''GET'' ''/'' 10 new_Router))
      (getMockContext ''GET'' None) =
     \<lparr>router = addRoute ''GET'' ''/(name)'' 20 (addRoute ''GET'' ''/'' 10 new_Router),
      calls = [(10, getMockContext ''GET'' None, Map.empty)],
      outcome = Resolved \<lparr>headers = None, status = 200, body = BodyValue 10\<rparr>\<rparr>"
  by (simp add: eval_defs)

end
